theory Spec2Isabelle
  imports Main "HOL-Library.Sublist" "HOL-Library.Multiset" "HOL-Library.AList"
begin

section \<open>Strings and script values\<close>

text \<open>
  Script strings are modelled as HOL strings whose characters are read as the code
  units U+0000 to U+00FF. An argument that the code tests for \<open>undefined\<close> or
  \<open>null\<close> is a \<open>jsval\<close>; a method call on \<open>undefined\<close> or \<open>null\<close>
  raises \<open>TypeError\<close>, a malformed selector raises \<open>SyntaxError\<close>.
\<close>

datatype jsval = Undefined | Null | Str string

datatype error = TypeError | SyntaxError

fun truthy :: "jsval \<Rightarrow> bool" where
  "truthy Undefined = False"
| "truthy Null = False"
| "truthy (Str s) = (s \<noteq> [])"

text \<open>The members of the regular expression class \<open>\s\<close> below U+0100.\<close>

definition whitespace :: "char list" where
  "whitespace = [CHR 0x09, CHR 0x0A, CHR 0x0B, CHR 0x0C, CHR 0x0D, CHR 0x20, CHR 0xA0]"

text \<open>\<open>s.replace(/[cs]+/g, '')\<close>: every character of the class \<open>cs\<close> is dropped.\<close>

definition replace_class :: "char list \<Rightarrow> string \<Rightarrow> string" where
  "replace_class cs s = filter (\<lambda>c. c \<notin> set cs) s"

text \<open>\<open>s || ''\<close> for a string \<open>s\<close>.\<close>

definition or_empty :: "string \<Rightarrow> string" where
  "or_empty s = (if s \<noteq> [] then s else [])"

text \<open>Decimal rendering of a loop counter, as in \<open>cI + i\<close> and \<open>j + this.prefix()\<close>.\<close>

fun toString :: "nat \<Rightarrow> string" where
  "toString n =
     (if n < 10 then [char_of (48 + n)]
      else toString (n div 10) @ [char_of (48 + n mod 10)])"

declare toString.simps [simp del]

section \<open>Identifier sanitizer\<close>

text \<open>
  The character class of \<open>flattenObjectId\<close>, in the order of the source:
  \<open>! " ' # $ ^ < > = ? * . / \ ] [ { } ` ~ % & - ( ) +\<close>, then \<open>\s\<close>, then
  \<open>, : ; @ |\<close>.
\<close>

definition forbidden :: "char list" where
  "forbidden =
     [CHR 0x21, CHR 0x22, CHR 0x27, CHR 0x23, CHR 0x24, CHR 0x5E, CHR 0x3C, CHR 0x3E,
      CHR 0x3D, CHR 0x3F, CHR 0x2A, CHR 0x2E, CHR 0x2F, CHR 0x5C, CHR 0x5D, CHR 0x5B,
      CHR 0x7B, CHR 0x7D, CHR 0x60, CHR 0x7E, CHR 0x25, CHR 0x26, CHR 0x2D, CHR 0x28,
      CHR 0x29, CHR 0x2B] @ whitespace @
     [CHR 0x2C, CHR 0x3A, CHR 0x3B, CHR 0x40, CHR 0x7C]"

fun flattenObjectId :: "jsval \<Rightarrow> error + string" where
  "flattenObjectId (Str objectid) = Inr (replace_class forbidden objectid)"
| "flattenObjectId _ = Inl TypeError"

section \<open>The host document\<close>

text \<open>
  The document is the forest of nodes below the document root. A node carries what the
  code reads and writes: its type, its \<open>id\<close> (the empty string when the element has
  none, as the \<open>id\<close> property reports it), its class list, the two data attributes
  \<open>data-trueclass\<close> and \<open>data-falseclass\<close> (\<open>None\<close> when the attribute is not
  there), and its children. A reference to a node of the document is its path from the
  root; \<open>null\<close> is \<open>None\<close>. Appending children never moves an existing node, so
  a path keeps denoting the same node.
\<close>

datatype nodeType = ELEMENT_NODE | TEXT_NODE

datatype node =
  Node (nodeType: nodeType) (node_id: string) (classList: "string list")
       (trueclass: "string option") (falseclass: "string option") (childNodes: "node list")

type_synonym noderef = "nat list"

fun node_at :: "node list \<Rightarrow> noderef \<Rightarrow> node option" where
  "node_at ns [] = None"
| "node_at ns (k # p) =
     (if k < length ns then (if p = [] then Some (ns ! k) else node_at (childNodes (ns ! k)) p)
      else None)"

text \<open>\<open>node && node.nodeType === Node.ELEMENT_NODE\<close>\<close>

definition is_element :: "node list \<Rightarrow> noderef option \<Rightarrow> bool" where
  "is_element doc node =
     (case node of None \<Rightarrow> False
      | Some r \<Rightarrow> (case node_at doc r of None \<Rightarrow> False | Some n \<Rightarrow> nodeType n = ELEMENT_NODE))"

text \<open>The elements of a forest in tree order, and their ids.\<close>

fun elements :: "node list \<Rightarrow> node list" where
  "elements [] = []"
| "elements (Node t i c tc fc ks # ns) =
     (if t = ELEMENT_NODE then [Node t i c tc fc ks] else []) @ elements ks @ elements ns"

definition ids :: "node list \<Rightarrow> string list" where
  "ids ns = filter (\<lambda>i. i \<noteq> []) (map node_id (elements ns))"

text \<open>
  \<open>querySelectorAll('[id$=' + p + ']')\<close>: the elements whose id ends with \<open>p\<close>. With
  nothing after \<open>$=\<close> the selector is malformed and the host raises \<open>SyntaxError\<close>.
  Definition names, variable ids and sanitized object ids are taken to be made of
  identifier characters, as the unquoted selectors of the code require.
\<close>

definition querySelectorAll_id_suffix :: "string \<Rightarrow> node list \<Rightarrow> error + node list" where
  "querySelectorAll_id_suffix p doc =
     (if p = [] then Inl SyntaxError
      else Inr (filter (\<lambda>n. suffix p (node_id n)) (elements doc)))"

text \<open>\<open>document.getElementById(e)\<close>: the first element in tree order with that id.\<close>

fun getElementById_from :: "nat \<Rightarrow> string \<Rightarrow> node list \<Rightarrow> noderef option" where
  "getElementById_from k e [] = None"
| "getElementById_from k e (Node t i c tc fc ks # ns) =
     (if t = ELEMENT_NODE \<and> i = e then Some [k]
      else (case getElementById_from 0 e ks of
              Some p \<Rightarrow> Some (k # p)
            | None \<Rightarrow> getElementById_from (Suc k) e ns))"

definition getElementById :: "string \<Rightarrow> node list \<Rightarrow> noderef option" where
  "getElementById e doc = (if e = [] then None else getElementById_from 0 e doc)"

text \<open>\<open>node.appendChild(df)\<close>: the nodes of the fragment become the last children.\<close>

fun appendChild :: "node list \<Rightarrow> noderef \<Rightarrow> node list \<Rightarrow> node list" where
  "appendChild ns [] df = ns"
| "appendChild ns (k # p) df =
     (if k < length ns then
        (case ns ! k of Node t i c tc fc ks \<Rightarrow>
           ns[k := Node t i c tc fc (if p = [] then ks @ df else appendChild ks p df)])
      else ns)"

text \<open>
  \<open>frag.querySelector('#' + e).id = v\<close>: the first element in tree order with id
  \<open>e\<close> gets the id \<open>v\<close>; \<open>None\<close> when there is no such element (the code then
  reads a property of \<open>null\<close>).
\<close>

fun set_first_id :: "string \<Rightarrow> string \<Rightarrow> node list \<Rightarrow> node list option" where
  "set_first_id e v [] = None"
| "set_first_id e v (Node t i c tc fc ks # ns) =
     (if t = ELEMENT_NODE \<and> i = e then Some (Node t v c tc fc ks # ns)
      else (case set_first_id e v ks of
              Some ks' \<Rightarrow> Some (Node t i c tc fc ks' # ns)
            | None \<Rightarrow> map_option ((#) (Node t i c tc fc ks)) (set_first_id e v ns)))"

section \<open>ComponentBlock\<close>

text \<open>
  The fields of a block. \<open>targetElement\<close> is the variable of the constructor's closure
  that \<open>setTargetElement\<close> and \<open>getTargetElement\<close> share; \<open>targetElement_prop\<close> is the
  property \<open>_targetElement\<close> of the object, \<open>undefined\<close> (here \<open>None\<close>) until
  \<open>appendTo\<close> writes it. \<open>templateCode\<close> is the detached fragment; cloning it is taking
  its value.
\<close>

record ComponentBlock =
  prefixid :: string
  bTemplate :: bool
  currentElementId :: string
  targetElement :: "noderef option"
  targetElement_prop :: "noderef option"
  targetid :: string
  variables :: "string list"
  templateCode :: "node list"

definition setTargetElement :: "node list \<Rightarrow> noderef option \<Rightarrow> ComponentBlock \<Rightarrow> ComponentBlock" where
  "setTargetElement doc node b = (if is_element doc node then b\<lparr>targetElement := node\<rparr> else b)"

definition getTargetElement :: "ComponentBlock \<Rightarrow> noderef option" where
  "getTargetElement b = targetElement b"

text \<open>The accessors \<open>id\<close> (read), \<open>name\<close> and \<open>target\<close>.\<close>

definition get_id :: "ComponentBlock \<Rightarrow> string" where
  "get_id b = currentElementId b"


definition get_target :: "ComponentBlock \<Rightarrow> noderef option" where
  "get_target b = getTargetElement b"

definition set_target :: "node list \<Rightarrow> noderef option \<Rightarrow> ComponentBlock \<Rightarrow> ComponentBlock" where
  "set_target doc node b = setTargetElement doc node b"

definition prefix_blk :: "ComponentBlock \<Rightarrow> string" where
  "prefix_blk b =
     (if bTemplate b then CHR ''_'' # prefixid b @ CHR ''_'' # currentElementId b else [])"

text \<open>
  \<open>find\<close> returns \<open>le && le.length\<close>: \<open>undefined\<close> (\<open>None\<close>) when the guard fails,
  otherwise the number of matches; \<open>found\<close> is its truth value. The result comes with
  the block as the call leaves it.
\<close>

definition found :: "nat option \<Rightarrow> bool" where
  "found r = (case r of None \<Rightarrow> False | Some n \<Rightarrow> n \<noteq> 0)"

definition find_blk ::
  "jsval \<Rightarrow> ComponentBlock \<Rightarrow> node list \<Rightarrow> error + (ComponentBlock \<times> nat option)" where
  "find_blk objectid b doc =
     (if truthy objectid \<and> variables b \<noteq> [] then
        (case flattenObjectId objectid of
           Inl e \<Rightarrow> Inl e
         | Inr f \<Rightarrow>
             (let oldId = currentElementId b;
                  b1 = b\<lparr>currentElementId := or_empty f\<rparr>
              in case querySelectorAll_id_suffix (prefix_blk b1) doc of
                   Inl e \<Rightarrow> Inl e
                 | Inr le \<Rightarrow>
                     Inr (if length le = 0 then b1\<lparr>currentElementId := oldId\<rparr> else b1,
                          Some (length le))))
      else Inr (b, None))"

text \<open>
  \<open>calculateObjectID\<close>. The loop \<open>for (i; this.find(cI + i); i++);\<close> has no bound of
  its own, so it is a partial function: \<open>None\<close> is a loop that does not end.
\<close>

partial_function (option) calculateObjectID_loop ::
  "string \<Rightarrow> nat \<Rightarrow> ComponentBlock \<Rightarrow> node list \<Rightarrow> (error + (ComponentBlock \<times> nat)) option" where
  "calculateObjectID_loop cI i b doc =
     (case find_blk (Str (cI @ toString i)) b doc of
        Inl e \<Rightarrow> Some (Inl e)
      | Inr (b', r) \<Rightarrow>
          if found r then calculateObjectID_loop cI (Suc i) b' doc else Some (Inr (b', i)))"

declare calculateObjectID_loop.simps [code]

definition calculateObjectID :: "ComponentBlock \<Rightarrow> node list \<Rightarrow> (error + ComponentBlock) option" where
  "calculateObjectID b doc =
     (let cI = currentElementId b in
      if cI = [] then
        (case calculateObjectID_loop cI 0 b doc of
           None \<Rightarrow> None
         | Some (Inl e) \<Rightarrow> Some (Inl e)
         | Some (Inr (b', i)) \<Rightarrow> Some (Inr (b'\<lparr>currentElementId := cI @ toString i\<rparr>)))
      else
        (case find_blk (Str cI) b doc of
           Inl e \<Rightarrow> Some (Inl e)
         | Inr (b1, r) \<Rightarrow>
             if found r then
               (case calculateObjectID_loop cI 0 b1 doc of
                  None \<Rightarrow> None
                | Some (Inl e) \<Rightarrow> Some (Inl e)
                | Some (Inr (b', i)) \<Rightarrow> Some (Inr (b'\<lparr>currentElementId := cI @ toString i\<rparr>)))
             else Some (Inr b1)))"

text \<open>
  \<open>initRootElements\<close>: the counter \<open>j\<close> advances only at a root element that gets
  a positional id.
\<close>

fun initRootElements_from :: "nat \<Rightarrow> string \<Rightarrow> node list \<Rightarrow> node list" where
  "initRootElements_from j p [] = []"
| "initRootElements_from j p (Node t i c tc fc ks # ns) =
     (if t = ELEMENT_NODE \<and> i = [] then
        Node t (toString j @ p) c tc fc ks # initRootElements_from (Suc j) p ns
      else Node t i c tc fc ks # initRootElements_from j p ns)"

definition initRootElements :: "ComponentBlock \<Rightarrow> node list \<Rightarrow> node list" where
  "initRootElements b frag = initRootElements_from 0 (prefix_blk b) frag"

fun initVariables_each :: "string list \<Rightarrow> string \<Rightarrow> node list \<Rightarrow> error + node list" where
  "initVariables_each [] p frag = Inr frag"
| "initVariables_each (e # es) p frag =
     (case set_first_id e (e @ p) frag of
        None \<Rightarrow> Inl TypeError
      | Some frag' \<Rightarrow> initVariables_each es p frag')"

definition initVariables :: "ComponentBlock \<Rightarrow> node list \<Rightarrow> error + node list" where
  "initVariables b frag = initVariables_each (variables b) (prefix_blk b) frag"

text \<open>
  The clone as \<open>appendTo\<close> inserts it: the fragment after \<open>initRootElements\<close> and
  \<open>initVariables\<close>, for the object id the block holds.
\<close>

definition instantiate :: "ComponentBlock \<Rightarrow> error + node list" where
  "instantiate b = initVariables b (initRootElements b (templateCode b))"

definition appendTo ::
  "noderef option \<Rightarrow> jsval \<Rightarrow> ComponentBlock \<Rightarrow> node list \<Rightarrow>
   (error + (ComponentBlock \<times> node list)) option" where
  "appendTo node objectid b doc =
     (if bTemplate b \<and> is_element doc node then
        (case flattenObjectId objectid of
           Inl e \<Rightarrow> Some (Inl e)
         | Inr f \<Rightarrow>
             (case calculateObjectID (b\<lparr>currentElementId := or_empty f\<rparr>) doc of
                None \<Rightarrow> None
              | Some (Inl e) \<Rightarrow> Some (Inl e)
              | Some (Inr b2) \<Rightarrow>
                  (case instantiate b2 of
                     Inl e \<Rightarrow> Some (Inl e)
                   | Inr df \<Rightarrow>
                       Some (Inr (b2\<lparr>targetElement_prop := node\<rparr>,
                                  appendChild doc (the node) df)))))
      else Some (Inr (b, doc)))"

definition attach ::
  "jsval \<Rightarrow> ComponentBlock \<Rightarrow> node list \<Rightarrow> (error + (ComponentBlock \<times> node list)) option" where
  "attach objectid b doc =
     (if bTemplate b then appendTo (getElementById (targetid b) doc) objectid b doc
      else Some (Inr (b, doc)))"

text \<open>The setter of \<open>id\<close>.\<close>

definition set_id ::
  "jsval \<Rightarrow> ComponentBlock \<Rightarrow> node list \<Rightarrow> (error + (ComponentBlock \<times> node list)) option" where
  "set_id v b doc =
     (if v \<noteq> Undefined \<and> v \<noteq> Null \<and> truthy v then
        (case find_blk v b doc of
           Inl e \<Rightarrow> Some (Inl e)
         | Inr (b1, r) \<Rightarrow> if \<not> found r then attach v b1 doc else Some (Inr (b1, doc)))
      else Some (Inr (b\<lparr>currentElementId := []\<rparr>, doc)))"

section \<open>ComponentVar\<close>

text \<open>
  A handle keeps the declared id and, when one of the two data attributes is a non-empty
  string, the pair \<open>boolClass\<close> of both attributes as they are (\<open>None\<close> for an
  attribute that is not there). Its block is passed to each operation.
\<close>

record ComponentVar =
  var_id :: string
  boolClass :: "(string option \<times> string option) option"

definition nonempty :: "string option \<Rightarrow> bool" where
  "nonempty x = (case x of None \<Rightarrow> False | Some s \<Rightarrow> s \<noteq> [])"

definition ComponentVar_new :: "node \<Rightarrow> ComponentVar" where
  "ComponentVar_new tag =
     \<lparr>var_id = node_id tag,
      boolClass = (let tcls = trueclass tag; fcls = falseclass tag
                   in if nonempty tcls \<or> nonempty fcls then Some (tcls, fcls) else None)\<rparr>"

definition var_target :: "ComponentVar \<Rightarrow> ComponentBlock \<Rightarrow> node list \<Rightarrow> noderef option" where
  "var_target v b doc = getElementById (var_id v @ prefix_blk b) doc"

text \<open>\<open>classname.split(' ')\<close>\<close>

fun split_space :: "string \<Rightarrow> string list" where
  "split_space [] = [[]]"
| "split_space (c # cs) =
     (if c = CHR '' '' then [] # split_space cs
      else (case split_space cs of w # ws \<Rightarrow> (c # w) # ws | [] \<Rightarrow> [[c]]))"

text \<open>\<open>t.classList.contains(c)\<close>; the empty token is in no class list.\<close>

definition contains :: "node \<Rightarrow> string \<Rightarrow> bool" where
  "contains t c = (c \<noteq> [] \<and> c \<in> set (classList t))"

text \<open>
  \<open>hasClass\<close> for a string or \<open>undefined\<close> (\<open>None\<close>); the array form of the
  argument is left out. For \<open>undefined\<close> the list \<open>clst\<close> stays undefined, the loop
  has nothing to visit and the result is true; a string has at least one part, and the
  first visit reads \<open>t.classList\<close>.
\<close>

definition hasClass ::
  "string option \<Rightarrow> ComponentVar \<Rightarrow> ComponentBlock \<Rightarrow> node list \<Rightarrow> error + bool" where
  "hasClass classname v b doc =
     (case classname of
        None \<Rightarrow> Inr True
      | Some s \<Rightarrow>
          (case var_target v b doc of
             None \<Rightarrow> Inl TypeError
           | Some r \<Rightarrow>
               (case node_at doc r of
                  None \<Rightarrow> Inl TypeError
                | Some t \<Rightarrow> Inr (list_all (contains t) (split_space s)))))"

text \<open>
  \<open>which\<close> returns \<open>this.boolClass && (\<dots> || \<dots>)\<close>: \<open>undefined\<close> (\<open>None\<close>) without
  \<open>boolClass\<close>, otherwise a boolean. The second \<open>hasClass\<close> runs only when the first
  is false.
\<close>

definition which :: "ComponentVar \<Rightarrow> ComponentBlock \<Rightarrow> node list \<Rightarrow> error + bool option" where
  "which v b doc =
     (case boolClass v of
        None \<Rightarrow> Inr None
      | Some (tcls, fcls) \<Rightarrow>
          (case hasClass tcls v b doc of
             Inl e \<Rightarrow> Inl e
           | Inr True \<Rightarrow> Inr (Some True)
           | Inr False \<Rightarrow>
               (case hasClass fcls v b doc of
                  Inl e \<Rightarrow> Inl e
                | Inr x \<Rightarrow> Inr (Some (\<not> x)))))"

section \<open>The constructors and the factory\<close>

text \<open>
  What the constructors read of a \<open>template\<close> or \<open>component\<close> tag: its \<open>id\<close>
  attribute (\<open>None\<close> when \<open>getAttribute\<close> gives \<open>null\<close>), which of the two tags it
  is, its parent node and its content. The document \<open>doc\<close> is the one the constructor
  leaves; taking the tag out of the document is not modelled, and the handles are built
  by \<open>ComponentVar_new\<close> from the elements of the content rather than stored in the
  block. The second copy of the source takes \<open>targetid\<close> from the grandparent when the
  parent is a \<open>tbody\<close> and is the same otherwise.
\<close>

datatype tagName = TEMPLATE | COMPONENT

record tag =
  attr_id :: "string option"
  nodeName :: tagName
  parentNode :: "noderef option"
  content :: "node list"

definition tag_id :: "tag \<Rightarrow> string" where
  "tag_id t = (case attr_id t of None \<Rightarrow> [] | Some s \<Rightarrow> s)"

definition parent_id :: "node list \<Rightarrow> tag \<Rightarrow> string" where
  "parent_id doc t =
     (case parentNode t of None \<Rightarrow> []
      | Some r \<Rightarrow> (case node_at doc r of None \<Rightarrow> [] | Some n \<Rightarrow> node_id n))"

definition ComponentBlock_new :: "node list \<Rightarrow> tag \<Rightarrow> ComponentBlock" where
  "ComponentBlock_new doc t =
     (let b0 = \<lparr>prefixid = replace_class (whitespace @ [CHR ''-'']) (tag_id t),
                bTemplate = False,
                currentElementId = [],
                targetElement = None,
                targetElement_prop = None,
                targetid = parent_id doc t,
                variables = [],
                templateCode = []\<rparr>;
          b1 = (if targetid b0 \<noteq> [] then setTargetElement doc (parentNode t) b0 else b0);
          b2 = b1\<lparr>variables := ids (content t)\<rparr>
      in if nodeName t = TEMPLATE then b2\<lparr>bTemplate := True, templateCode := content t\<rparr>
         else b2)"







section \<open>Example documents\<close>

text \<open>
  The page of the scenario: \<open>table#tbl\<close>, which held
  \<open><template id="row"><div id="x">{}</div></template>\<close>, followed by \<open>div#other\<close>;
  \<open>page_r1\<close> is the page with the instance \<open>r1\<close> of \<open>row\<close> in the table.
\<close>

definition el :: "string \<Rightarrow> string list \<Rightarrow> node list \<Rightarrow> node" where
  "el i c ks = Node ELEMENT_NODE i c None None ks"

definition txt_node :: node where
  "txt_node = Node TEXT_NODE [] [] None None []"

definition page :: "node list" where
  "page = [el ''tbl'' [] [], el ''other'' [] []]"

definition row_tag :: tag where
  "row_tag = \<lparr>attr_id = Some ''row'', nodeName = TEMPLATE, parentNode = Some [0],
              content = [el ''x'' [] [txt_node]]\<rparr>"

definition row :: ComponentBlock where
  "row = ComponentBlock_new page row_tag"

definition page_r1 :: "node list" where
  "page_r1 = [el ''tbl'' [] [el ''x_row_r1'' [] [txt_node]], el ''other'' [] []]"

text \<open>A component \<open><component id="c1"><span id="y"></span></component>\<close> of the table.\<close>

definition c1_tag :: tag where
  "c1_tag = \<lparr>attr_id = Some ''c1'', nodeName = COMPONENT, parentNode = Some [0],
             content = [el ''y'' [] []]\<rparr>"

definition c1 :: ComponentBlock where
  "c1 = ComponentBlock_new page c1_tag"




text \<open>
  Template elements \<open><div id="x" data-falseclass="off">\<close> and
  \<open><div id="x" data-trueclass="on" data-falseclass="off">\<close>, and a page whose instance
  \<open>r1\<close> of \<open>row\<close> carries the class \<open>off\<close>.
\<close>

definition flag_el :: node where
  "flag_el = Node ELEMENT_NODE ''x'' [] None (Some ''off'') []"

definition both_el :: node where
  "both_el = Node ELEMENT_NODE ''x'' [] (Some ''on'') (Some ''off'') []"

definition x_off :: node where
  "x_off = Node ELEMENT_NODE ''x_row_r1'' [''off''] None (Some ''off'') []"

definition page_off :: "node list" where
  "page_off = [el ''tbl'' [] [x_off], el ''other'' [] []]"

text \<open>
  A template without variables, \<open><template id="item"><li>\<dots></li></template>\<close> in the
  table; its clone for the object id \<open>0\<close>; the page after one and after two such clones.
\<close>

definition item_tag :: tag where
  "item_tag = \<lparr>attr_id = Some ''item'', nodeName = TEMPLATE, parentNode = Some [0],
               content = [el [] [] [txt_node]]\<rparr>"

definition item :: ComponentBlock where
  "item = ComponentBlock_new page item_tag"

definition item_0 :: ComponentBlock where
  "item_0 = item\<lparr>currentElementId := ''0'', targetElement_prop := Some [0]\<rparr>"

definition item_clone :: "node list" where
  "item_clone = [el ''0_item_0'' [] [txt_node]]"

definition page_item :: "node list" where
  "page_item = [el ''tbl'' [] [el ''0_item_0'' [] [txt_node]], el ''other'' [] []]"

definition page_item2 :: "node list" where
  "page_item2 = [el ''tbl'' [] [el ''0_item_0'' [] [txt_node], el ''0_item_0'' [] [txt_node]],
                 el ''other'' [] []]"

section \<open>Notions of the specification\<close>


text \<open>
  A configured class \<open>s\<close>, a list of names separated by single spaces, is present on an
  element when each of its names is in the element's class list.
\<close>

definition class_present :: "node \<Rightarrow> string \<Rightarrow> bool" where
  "class_present t s = (\<forall>w \<in> set (split_space s). w \<noteq> [] \<and> w \<in> set (classList t))"

text \<open>
  The suffix of the ids of the instance \<open>s\<close> of the definition \<open>name\<close>, and whether
  the document has an element whose id ends with it. \<open>used\<close> is what \<open>find\<close>
  reports for a sanitized, non-empty object id on a template: for a block without
  variables it reports nothing.
\<close>

definition instance_suffix :: "string \<Rightarrow> string \<Rightarrow> string" where
  "instance_suffix name s = CHR ''_'' # name @ CHR ''_'' # s"

definition in_use :: "string \<Rightarrow> node list \<Rightarrow> string \<Rightarrow> bool" where
  "in_use name doc s = (\<exists>i \<in> set (ids doc). suffix (instance_suffix name s) i)"

definition used :: "ComponentBlock \<Rightarrow> node list \<Rightarrow> string \<Rightarrow> bool" where
  "used b doc s = (variables b \<noteq> [] \<and> in_use (prefixid b) doc s)"

text \<open>
  The object id \<open>a\<close> adopted for the sanitized request \<open>cI\<close>: \<open>cI\<close> itself when it
  is not empty and not reported, otherwise \<open>cI\<close> followed by the first of \<open>0, 1, 2, \<dots>\<close>
  that makes an id that is not reported.
\<close>

definition adopts :: "ComponentBlock \<Rightarrow> node list \<Rightarrow> string \<Rightarrow> string \<Rightarrow> bool" where
  "adopts b doc cI a =
     (if cI \<noteq> [] \<and> \<not> used b doc cI then a = cI
      else (\<exists>m. a = cI @ toString m \<and> \<not> used b doc (cI @ toString m) \<and>
                (\<forall>j < m. used b doc (cI @ toString j))))"

definition digits :: "char list" where
  "digits = ''0123456789''"

section \<open>Properties of the sanitizer\<close>

lemma or_empty_id [simp]: "or_empty s = s"
  by (simp add: or_empty_def)

lemma replace_class_idem: "replace_class cs (replace_class cs s) = replace_class cs s"
  by (simp add: replace_class_def)

lemma replace_class_fixed:
  "set s \<inter> set cs = {} \<Longrightarrow> replace_class cs s = s"
  unfolding replace_class_def by (induction s) auto

lemma replace_class_append:
  "replace_class cs (s @ t) = replace_class cs s @ replace_class cs t"
  by (simp add: replace_class_def)


section \<open>Properties of find, attach and appendTo\<close>

text \<open>
  Claim C2. When \<open>find\<close> returns and reports failure, the block is as it was before
  the call; when it reports success, \<open>currentElementId\<close> is the sanitized object id,
  and a second \<open>find\<close> with the same object id on the same document reports the same
  success and leaves the block, hence \<open>currentElementId\<close>, unchanged.
\<close>

theorem find_blk_read_stable:
  assumes "find_blk oid b doc = Inr (b', r)"
  shows "(\<not> found r \<longrightarrow> b' = b) \<and>
         (found r \<longrightarrow> flattenObjectId oid = Inr (currentElementId b') \<and>
                       find_blk oid b' doc = Inr (b', r))"
  using assms
  by (auto simp: find_blk_def found_def Let_def querySelectorAll_id_suffix_def prefix_blk_def
           split: if_splits sum.splits)

theorem find_blk_read_stable_witness:
  "find_blk (Str ''r.1'') row page_r1 = Inr (row\<lparr>currentElementId := ''r1''\<rparr>, Some 1) \<and>
   found (Some 1) \<and>
   flattenObjectId (Str ''r.1'') = Inr (currentElementId (row\<lparr>currentElementId := ''r1''\<rparr>)) \<and>
   find_blk (Str ''r.1'') (row\<lparr>currentElementId := ''r1''\<rparr>) page_r1 =
     Inr (row\<lparr>currentElementId := ''r1''\<rparr>, Some 1)"
proof -
  have h: "find_blk (Str ''r.1'') row page_r1 = Inr (row\<lparr>currentElementId := ''r1''\<rparr>, Some 1)"
    by code_simp
  have f: "found (Some 1)"
    by (simp add: found_def)
  from find_blk_read_stable [OF h] f h show ?thesis
    by simp
qed

text \<open>
  Claim C10. For a block without variable names, and for an object id that is empty,
  \<open>undefined\<close> or \<open>null\<close>, \<open>find\<close> returns \<open>undefined\<close>, which is false-y,
  and the block is unchanged, whatever the document holds.
\<close>

theorem find_blk_guard_fails:
  "variables b = [] \<or> \<not> truthy oid \<Longrightarrow>
   find_blk oid b doc = Inr (b, None) \<and> \<not> found None"
  by (auto simp: find_blk_def found_def)

theorem find_blk_guard_fails_witness:
  "\<not> truthy (Str []) \<and>
   find_blk (Str []) (row\<lparr>currentElementId := ''r1''\<rparr>) page_r1 =
     Inr (row\<lparr>currentElementId := ''r1''\<rparr>, None) \<and> \<not> found None"
  using find_blk_guard_fails [of "row\<lparr>currentElementId := ''r1''\<rparr>" "Str []" page_r1]
  by simp



text \<open>
  Claim C4, evaluated: \<open>row\<close> has the table as its target; after
  \<open>appendTo(other, "r1")\<close> the clone is in \<open>div#other\<close> and the property
  \<open>_targetElement\<close> is that node, but the accessor \<open>target\<close> still returns the table.
\<close>

theorem appendTo_target_not_recorded:
  "\<exists>b' doc'. appendTo (Some [1]) (Str ''r1'') row page = Some (Inr (b', doc')) \<and>
     doc' = [el ''tbl'' [] [], el ''other'' [] [el ''x_row_r1'' [] [txt_node]]] \<and>
     targetElement_prop b' = Some [1] \<and>
     get_target b' = Some [0] \<and> get_target b' \<noteq> Some [1]"
proof -
  have "appendTo (Some [1]) (Str ''r1'') row page =
        Some (Inr (row\<lparr>currentElementId := ''r1'', targetElement_prop := Some [1]\<rparr>,
                   [el ''tbl'' [] [], el ''other'' [] [el ''x_row_r1'' [] [txt_node]]]))"
    by code_simp
  moreover have "get_target (row\<lparr>currentElementId := ''r1'', targetElement_prop := Some [1]\<rparr>) = Some [0]"
    by code_simp
  ultimately show ?thesis by simp
qed

section \<open>Properties of the factory\<close>












section \<open>Properties of which\<close>

lemma hasClass_present:
  "var_target v b doc = Some r \<Longrightarrow> node_at doc r = Some t \<Longrightarrow>
   hasClass (Some s) v b doc = Inr (class_present t s)"
  by (auto simp: hasClass_def class_present_def contains_def list_all_iff)

text \<open>
  What \<open>which\<close> computes. Without \<open>boolClass\<close> it returns \<open>undefined\<close>. With it and
  an element that resolves: when both classes are configured, \<open>which\<close> is true exactly
  when the true class is present or the false class is not; when only the true class is
  configured, exactly when it is present; and when the true class is not configured,
  \<open>which\<close> is true whatever classes the element has, because \<open>hasClass(undefined)\<close>
  is true.
\<close>

theorem which_cases:
  "(boolClass v = None \<longrightarrow> which v b doc = Inr None) \<and>
   (var_target v b doc = Some r \<and> node_at doc r = Some t \<longrightarrow>
      (boolClass v = Some (Some T, Some F) \<longrightarrow>
         which v b doc = Inr (Some (class_present t T \<or> \<not> class_present t F))) \<and>
      (boolClass v = Some (Some T, None) \<longrightarrow>
         which v b doc = Inr (Some (class_present t T))) \<and>
      (boolClass v = Some (None, F') \<longrightarrow> which v b doc = Inr (Some True)))"
proof -
  have n: "hasClass None v b doc = Inr True"
    by (simp add: hasClass_def)
  show ?thesis
    using n by (auto simp: which_def hasClass_present split: bool.splits)
qed

theorem which_cases_witness:
  "boolClass (ComponentVar_new both_el) = Some (Some ''on'', Some ''off'') \<and>
   var_target (ComponentVar_new both_el) (row\<lparr>currentElementId := ''r1''\<rparr>) page_off = Some [0, 0] \<and>
   node_at page_off [0, 0] = Some x_off \<and>
   which (ComponentVar_new both_el) (row\<lparr>currentElementId := ''r1''\<rparr>) page_off = Inr (Some False)"
proof -
  have bc: "boolClass (ComponentVar_new both_el) = Some (Some ''on'', Some ''off'')"
    by code_simp
  have t: "var_target (ComponentVar_new both_el) (row\<lparr>currentElementId := ''r1''\<rparr>) page_off = Some [0, 0]"
    by code_simp
  have nd: "node_at page_off [0, 0] = Some x_off"
    by code_simp
  have p: "\<not> class_present x_off ''on''" "class_present x_off ''off''"
    by (simp_all add: class_present_def x_off_def)
  from which_cases [of "ComponentVar_new both_el" "row\<lparr>currentElementId := ''r1''\<rparr>" page_off
      "[0, 0]" x_off "''on''" "''off''"] bc t nd p
  show ?thesis by simp
qed

text \<open>
  Claim C7, evaluated at the handle of \<open><div id="x" data-falseclass="off">\<close> on an
  element that has the class \<open>off\<close>: no true class is configured, the false class is
  on the element, and \<open>which\<close> is true. (\<open>choose\<close> tests each configured class before
  it uses it; \<open>which\<close> does not.)
\<close>

theorem which_falseclass_only:
  "boolClass (ComponentVar_new flag_el) = Some (None, Some ''off'') \<and>
   var_target (ComponentVar_new flag_el) (row\<lparr>currentElementId := ''r1''\<rparr>) page_off = Some [0, 0] \<and>
   node_at page_off [0, 0] = Some x_off \<and>
   contains x_off ''off'' \<and>
   which (ComponentVar_new flag_el) (row\<lparr>currentElementId := ''r1''\<rparr>) page_off = Inr (Some True)"
  by code_simp

section \<open>Decimal counters and ids in use\<close>

lemma digit_chars: "\<forall>n \<in> set [0..<10]. char_of (48 + n) \<in> set digits"
  by code_simp

lemma digit_char: "(n::nat) < 10 \<Longrightarrow> char_of (48 + n) \<in> set digits"
  using digit_chars by simp

lemma toString_digits: "set (toString n) \<subseteq> set digits"
proof (induction n rule: toString.induct)
  case (1 n)
  show ?case
  proof (cases "n < 10")
    case True
    then show ?thesis using digit_char [of n] by (subst toString.simps) simp
  next
    case False
    have "n mod 10 < 10" by simp
    from digit_char [OF this] 1 [OF False] False show ?thesis
      by (subst toString.simps) simp
  qed
qed

lemma toString_nonempty: "toString n \<noteq> []"
  by (subst toString.simps) simp

lemma toString_length: "n < 10 ^ length (toString n)"
proof (induction n rule: toString.induct)
  case (1 n)
  show ?case
  proof (cases "n < 10")
    case True
    then show ?thesis by (subst toString.simps) simp
  next
    case False
    from 1 [OF False] have "n div 10 < 10 ^ length (toString (n div 10))" .
    then have "n < 10 * 10 ^ length (toString (n div 10))"
      by (simp add: less_mult_imp_div_less mult.commute)
    then show ?thesis using False by (subst toString.simps) simp
  qed
qed

lemma digits_not_forbidden: "set digits \<inter> set forbidden = {}"
  by (simp add: digits_def forbidden_def whitespace_def)

lemma toString_sanitized: "replace_class forbidden (toString n) = toString n"
  using toString_digits [of n] digits_not_forbidden
  by (intro replace_class_fixed) blast

lemma toString_no_underscore: "CHR ''_'' \<notin> set (toString n)"
  using toString_digits [of n] by (auto simp: digits_def)

lemma toString_0: "toString 0 = ''0''"
  by code_simp

lemma toString_1: "toString 1 = ''1''"
  by code_simp

lemma in_use_bound:
  assumes "in_use name doc s"
  shows "length s \<le> sum_list (map length (ids doc))"
proof -
  from assms obtain i where i: "i \<in> set (ids doc)" "suffix (instance_suffix name s) i"
    by (auto simp: in_use_def)
  from i(2) have "length (instance_suffix name s) \<le> length i"
    by (rule suffix_length_le)
  moreover from i(1) have "length i \<le> sum_list (map length (ids doc))"
    by (simp add: member_le_sum_list)
  ultimately show ?thesis by (simp add: instance_suffix_def)
qed

lemma free_exists: "\<exists>j. \<not> in_use name doc (cI @ toString j)"
proof -
  define L where "L = sum_list (map length (ids doc))"
  have "(10::nat) ^ L < 10 ^ length (toString (10 ^ L))"
    by (rule toString_length)
  then have "L < length (toString (10 ^ L))"
    by simp
  then have "\<not> in_use name doc (cI @ toString (10 ^ L))"
    using in_use_bound [of name doc "cI @ toString (10 ^ L)"] by (auto simp: L_def)
  then show ?thesis ..
qed

lemma prefix_blk_template:
  "bTemplate b \<Longrightarrow> prefix_blk (b\<lparr>currentElementId := s\<rparr>) = instance_suffix (prefixid b) s"
  by (simp add: prefix_blk_def instance_suffix_def)

lemma matches_iff_in_use:
  "(filter (\<lambda>n. suffix (instance_suffix name s) (node_id n)) (elements doc) \<noteq> []) = in_use name doc s"
proof -
  have "suffix (instance_suffix name s) i \<Longrightarrow> i \<noteq> []" for i
    by (auto simp: instance_suffix_def)
  then show ?thesis
    by (auto simp: in_use_def ids_def filter_empty_conv)
qed

lemma find_blk_template:
  assumes "bTemplate b" "s \<noteq> []" "replace_class forbidden s = s"
  shows "\<exists>r. find_blk (Str s) b doc =
           Inr (if used b doc s then b\<lparr>currentElementId := s\<rparr> else b, r) \<and>
           found r = used b doc s"
proof (cases "variables b = []")
  case True
  then show ?thesis by (simp add: find_blk_def used_def found_def)
next
  case False
  let ?le = "filter (\<lambda>n. suffix (instance_suffix (prefixid b) s) (node_id n)) (elements doc)"
  have q: "querySelectorAll_id_suffix (prefix_blk (b\<lparr>currentElementId := s\<rparr>)) doc = Inr ?le"
    using assms(1) by (simp add: querySelectorAll_id_suffix_def prefix_blk_template instance_suffix_def)
  have m: "(?le \<noteq> []) = in_use (prefixid b) doc s"
    by (rule matches_iff_in_use)
  show ?thesis
    using False assms(2,3) q m
    by (auto simp: find_blk_def Let_def used_def found_def)
qed

section \<open>The loop of calculateObjectID\<close>

lemma used_update [simp]: "used (b\<lparr>currentElementId := x\<rparr>) doc s = used b doc s"
  by (simp add: used_def)

lemma sanitized_counter:
  "replace_class forbidden cI = cI \<Longrightarrow>
   replace_class forbidden (cI @ toString j) = cI @ toString j"
  by (simp add: replace_class_append toString_sanitized)

lemma loop_first_free:
  assumes "bTemplate b" "replace_class forbidden cI = cI"
    and "\<not> used b doc (cI @ toString m)" "i \<le> m"
    and "\<forall>j. i \<le> j \<and> j < m \<longrightarrow> used b doc (cI @ toString j)"
  shows "\<exists>c. calculateObjectID_loop cI i b doc = Some (Inr (b\<lparr>currentElementId := c\<rparr>, m))"
  using assms
proof (induction "m - i" arbitrary: i b)
  case 0
  then have im: "i = m" by simp
  from find_blk_template [OF "0.prems"(1) _ sanitized_counter [OF "0.prems"(2)], of m doc]
  obtain r where r: "find_blk (Str (cI @ toString m)) b doc = Inr (b, r)" "\<not> found r"
    using "0.prems"(3) toString_nonempty by auto
  have "calculateObjectID_loop cI i b doc = Some (Inr (b, m))"
    using r im by (subst calculateObjectID_loop.simps) simp
  moreover have "b = b\<lparr>currentElementId := currentElementId b\<rparr>" by simp
  ultimately show ?case by metis
next
  case (Suc d)
  then have lt: "i < m" by simp
  with Suc.prems(5) have u: "used b doc (cI @ toString i)" by simp
  let ?b1 = "b\<lparr>currentElementId := cI @ toString i\<rparr>"
  from find_blk_template [OF Suc.prems(1) _ sanitized_counter [OF Suc.prems(2)], of i doc]
  obtain r where r: "find_blk (Str (cI @ toString i)) b doc = Inr (?b1, r)" "found r"
    using u toString_nonempty by auto
  have step: "calculateObjectID_loop cI i b doc = calculateObjectID_loop cI (Suc i) ?b1 doc"
    using r by (subst calculateObjectID_loop.simps) simp
  have "\<exists>c. calculateObjectID_loop cI (Suc i) ?b1 doc = Some (Inr (?b1\<lparr>currentElementId := c\<rparr>, m))"
  proof (rule Suc.hyps(1))
    show "d = m - Suc i" using Suc.hyps(2) by simp
    show "bTemplate ?b1" using Suc.prems(1) by simp
    show "replace_class forbidden cI = cI" by (rule Suc.prems(2))
    show "\<not> used ?b1 doc (cI @ toString m)" using Suc.prems(3) by simp
    show "Suc i \<le> m" using lt by simp
    show "\<forall>j. Suc i \<le> j \<and> j < m \<longrightarrow> used ?b1 doc (cI @ toString j)"
      using Suc.prems(5) by simp
  qed
  then show ?case using step by simp
qed

lemma first_unused_exists:
  "\<exists>m. \<not> used b doc (cI @ toString m) \<and> (\<forall>j < m. used b doc (cI @ toString j))"
proof -
  from free_exists [of "prefixid b" doc cI]
  have ex: "\<exists>j. \<not> used b doc (cI @ toString j)"
    by (auto simp: used_def)
  define m where "m = (LEAST j. \<not> used b doc (cI @ toString j))"
  from ex have "\<not> used b doc (cI @ toString m)"
    unfolding m_def by (metis (mono_tags, lifting) LeastI)
  moreover have "\<forall>j < m. used b doc (cI @ toString j)"
    unfolding m_def using not_less_Least by blast
  ultimately show ?thesis by blast
qed

lemma loop_returns:
  assumes "bTemplate b" "replace_class forbidden cI = cI"
  shows "\<exists>c m. calculateObjectID_loop cI 0 b doc = Some (Inr (b\<lparr>currentElementId := c\<rparr>, m)) \<and>
           \<not> used b doc (cI @ toString m) \<and> (\<forall>j < m. used b doc (cI @ toString j))"
proof -
  from first_unused_exists [of b doc cI] obtain m where
    m: "\<not> used b doc (cI @ toString m)" "\<forall>j < m. used b doc (cI @ toString j)"
    by blast
  from loop_first_free [OF assms m(1), of 0] m(2)
  obtain c where "calculateObjectID_loop cI 0 b doc = Some (Inr (b\<lparr>currentElementId := c\<rparr>, m))"
    by auto
  with m show ?thesis by blast
qed

lemma calculateObjectID_adopts:
  assumes "bTemplate b" "replace_class forbidden (currentElementId b) = currentElementId b"
  shows "\<exists>a. calculateObjectID b doc = Some (Inr (b\<lparr>currentElementId := a\<rparr>)) \<and>
             adopts b doc (currentElementId b) a"
proof -
  let ?cI = "currentElementId b"
  show ?thesis
  proof (cases "?cI = []")
    case True
    from loop_returns [OF assms, of doc] obtain c m where
      l: "calculateObjectID_loop ?cI 0 b doc = Some (Inr (b\<lparr>currentElementId := c\<rparr>, m))"
         "\<not> used b doc (?cI @ toString m)" "\<forall>j < m. used b doc (?cI @ toString j)"
      by blast
    have "calculateObjectID b doc = Some (Inr (b\<lparr>currentElementId := ?cI @ toString m\<rparr>))"
      using True l(1) by (simp add: calculateObjectID_def)
    moreover have "adopts b doc ?cI (?cI @ toString m)"
      using True l(2,3) by (auto simp: adopts_def)
    ultimately show ?thesis by blast
  next
    case False
    from find_blk_template [OF assms(1) False assms(2), of doc]
    obtain r where r: "find_blk (Str ?cI) b doc =
           Inr (if used b doc ?cI then b\<lparr>currentElementId := ?cI\<rparr> else b, r)"
           "found r = used b doc ?cI"
      by blast
    show ?thesis
    proof (cases "used b doc ?cI")
      case u: True
      from loop_returns [OF assms, of doc] obtain c m where
        l: "calculateObjectID_loop ?cI 0 b doc = Some (Inr (b\<lparr>currentElementId := c\<rparr>, m))"
           "\<not> used b doc (?cI @ toString m)" "\<forall>j < m. used b doc (?cI @ toString j)"
        by blast
      have "calculateObjectID b doc = Some (Inr (b\<lparr>currentElementId := ?cI @ toString m\<rparr>))"
        using False r u l(1) by (simp add: calculateObjectID_def)
      moreover have "adopts b doc ?cI (?cI @ toString m)"
        using u l(2,3) by (auto simp: adopts_def)
      ultimately show ?thesis by blast
    next
      case nu: False
      have "calculateObjectID b doc = Some (Inr (b\<lparr>currentElementId := ?cI\<rparr>))"
        using False r nu by (simp add: calculateObjectID_def)
      moreover have "adopts b doc ?cI ?cI"
        using False nu by (simp add: adopts_def)
      ultimately show ?thesis by blast
    qed
  qed
qed

section \<open>The ids of a clone\<close>

lemma elements_append: "elements (xs @ ys) = elements xs @ elements ys"
  by (induction xs rule: elements.induct) auto

lemma ids_append: "ids (xs @ ys) = ids xs @ ids ys"
  by (simp add: ids_def elements_append)

lemma ids_Nil [simp]: "ids [] = []"
  by (simp add: ids_def)

lemma ids_Cons:
  "ids (Node t i c tc fc ks # ns) =
   (if t = ELEMENT_NODE \<and> i \<noteq> [] then [i] else []) @ ids ks @ ids ns"
  by (simp add: ids_def)

lemma ids_nonempty: "i \<in> set (ids ns) \<Longrightarrow> i \<noteq> []"
  by (auto simp: ids_def)

lemma set_first_id_mset:
  "set_first_id e v frag = Some frag' \<Longrightarrow> e \<noteq> [] \<Longrightarrow> v \<noteq> [] \<Longrightarrow>
   mset (ids frag') + {#e#} = mset (ids frag) + {#v#}"
proof (induction e v frag arbitrary: frag' rule: set_first_id.induct)
  case (1 e v)
  then show ?case by simp
next
  case (2 e v t i c tc fc ks ns)
  show ?case
  proof (cases "t = ELEMENT_NODE \<and> i = e")
    case True
    with "2.prems" show ?thesis by (auto simp: ids_Cons)
  next
    case False
    show ?thesis
    proof (cases "set_first_id e v ks")
      case (Some ks')
      with False "2.prems" have f: "frag' = Node t i c tc fc ks' # ns" by auto
      from "2.IH"(1) [OF False Some "2.prems"(2,3)]
      have "mset (ids ks') + {#e#} = mset (ids ks) + {#v#}" .
      then show ?thesis unfolding f by (simp add: ids_Cons)
    next
      case None
      with False "2.prems" obtain ns' where
        n: "set_first_id e v ns = Some ns'" "frag' = Node t i c tc fc ks # ns'"
        by auto
      from "2.IH"(2) [OF False None n(1) "2.prems"(2,3)]
      have "mset (ids ns') + {#e#} = mset (ids ns) + {#v#}" .
      then show ?thesis unfolding n(2) by (simp add: ids_Cons)
    qed
  qed
qed

lemma set_first_id_finds:
  "e \<in> set (ids frag) \<Longrightarrow> \<exists>frag'. set_first_id e v frag = Some frag'"
proof (induction e v frag rule: set_first_id.induct)
  case (1 e v)
  then show ?case by simp
next
  case (2 e v t i c tc fc ks ns)
  show ?case
  proof (cases "t = ELEMENT_NODE \<and> i = e")
    case True
    then show ?thesis by simp
  next
    case False
    show ?thesis
    proof (cases "set_first_id e v ks")
      case (Some ks')
      with False show ?thesis by simp
    next
      case None
      with "2.IH"(1) [OF False] have "e \<notin> set (ids ks)" by auto
      with "2.prems" False have "e \<in> set (ids ns)" by (auto simp: ids_Cons split: if_splits)
      from "2.IH"(2) [OF False None this] None False show ?thesis by auto
    qed
  qed
qed

lemma initVariables_each_mset:
  assumes "mset es \<subseteq># mset (ids frag)" "p \<noteq> []"
  shows "\<exists>frag'. initVariables_each es p frag = Inr frag' \<and>
           mset (ids frag') + mset es = mset (ids frag) + mset (map (\<lambda>e. e @ p) es)"
  using assms
proof (induction es arbitrary: frag)
  case Nil
  then show ?case by simp
next
  case (Cons e es)
  then have e_in: "e \<in> set (ids frag)"
    by (metis list.set_intros(1) mset_subset_eqD set_mset_mset)
  then have e_ne: "e \<noteq> []" by (rule ids_nonempty)
  from set_first_id_finds [OF e_in, of "e @ p"] obtain frag1 where
    f1: "set_first_id e (e @ p) frag = Some frag1" by blast
  from set_first_id_mset [OF f1 e_ne] Cons.prems(2)
  have m1: "mset (ids frag1) + {#e#} = mset (ids frag) + {#e @ p#}" by simp
  have "mset es + {#e#} \<subseteq># mset (ids frag1) + {#e#}"
  proof -
    have "mset es + {#e#} \<subseteq># mset (ids frag)" using Cons.prems(1) by simp
    also have "\<dots> \<subseteq># mset (ids frag) + {#e @ p#}" by simp
    finally show ?thesis using m1 by simp
  qed
  then have sub: "mset es \<subseteq># mset (ids frag1)" by simp
  from Cons.IH [OF sub Cons.prems(2)] obtain frag' where
    f': "initVariables_each es p frag1 = Inr frag'"
        "mset (ids frag') + mset es = mset (ids frag1) + mset (map (\<lambda>e. e @ p) es)"
    by blast
  have "initVariables_each (e # es) p frag = Inr frag'"
    using f1 f'(1) by simp
  moreover have "mset (ids frag') + mset (e # es) = mset (ids frag) + mset (map (\<lambda>e. e @ p) (e # es))"
  proof -
    have "mset (ids frag') + mset (e # es) = (mset (ids frag') + mset es) + {#e#}" by simp
    also have "\<dots> = (mset (ids frag1) + {#e#}) + mset (map (\<lambda>e. e @ p) es)"
      using f'(2) by simp
    also have "\<dots> = mset (ids frag) + mset (map (\<lambda>e. e @ p) (e # es))"
      using m1 by simp
    finally show ?thesis .
  qed
  ultimately show ?case by blast
qed

lemma initRootElements_from_mset:
  "\<exists>js. mset (ids (initRootElements_from j p frag)) =
         mset (ids frag) + mset (map (\<lambda>m. toString m @ p) js)"
proof (induction j p frag rule: initRootElements_from.induct)
  case (1 j p)
  have "mset (ids (initRootElements_from j p [])) = mset (ids []) + mset (map (\<lambda>m. toString m @ p) [])"
    by simp
  then show ?case by blast
next
  case (2 j p t i c tc fc ks ns)
  show ?case
  proof (cases "t = ELEMENT_NODE \<and> i = []")
    case True
    from "2.IH"(1) [OF True] obtain js where
      js: "mset (ids (initRootElements_from (Suc j) p ns)) =
           mset (ids ns) + mset (map (\<lambda>m. toString m @ p) js)" by blast
    have "mset (ids (initRootElements_from j p (Node t i c tc fc ks # ns))) =
          mset (ids (Node t i c tc fc ks # ns)) + mset (map (\<lambda>m. toString m @ p) (j # js))"
      using True js toString_nonempty by (simp add: ids_Cons)
    then show ?thesis by blast
  next
    case False
    from "2.IH"(2) [OF False] obtain js where
      js: "mset (ids (initRootElements_from j p ns)) =
           mset (ids ns) + mset (map (\<lambda>m. toString m @ p) js)" by blast
    have "mset (ids (initRootElements_from j p (Node t i c tc fc ks # ns))) =
          mset (ids (Node t i c tc fc ks # ns)) + mset (map (\<lambda>m. toString m @ p) js)"
      using False js by (cases "t = ELEMENT_NODE") (auto simp: ids_Cons)
    then show ?thesis by blast
  qed
qed

lemma prefix_blk_nonempty: "bTemplate b \<Longrightarrow> prefix_blk b \<noteq> []"
  by (simp add: prefix_blk_def)

lemma instantiate_ids:
  assumes "bTemplate b" "variables b = ids (templateCode b)"
  shows "\<exists>c js. instantiate b = Inr c \<and>
           mset (ids c) = mset (map (\<lambda>m. toString m @ prefix_blk b) js) +
                          mset (map (\<lambda>e. e @ prefix_blk b) (variables b))"
proof -
  let ?p = "prefix_blk b"
  let ?f1 = "initRootElements_from 0 ?p (templateCode b)"
  from initRootElements_from_mset [of 0 ?p "templateCode b"] obtain js where
    js: "mset (ids ?f1) = mset (ids (templateCode b)) + mset (map (\<lambda>m. toString m @ ?p) js)"
    by blast
  then have sub: "mset (variables b) \<subseteq># mset (ids ?f1)"
    using assms(2) by simp
  from initVariables_each_mset [OF sub prefix_blk_nonempty [OF assms(1)]] obtain c where
    c: "initVariables_each (variables b) ?p ?f1 = Inr c"
       "mset (ids c) + mset (variables b) = mset (ids ?f1) + mset (map (\<lambda>e. e @ ?p) (variables b))"
    by blast
  have "instantiate b = Inr c"
    using c(1) by (simp add: instantiate_def initVariables_def initRootElements_def)
  moreover have "mset (ids c) = mset (map (\<lambda>m. toString m @ ?p) js) +
                          mset (map (\<lambda>e. e @ ?p) (variables b))"
    using c(2) js assms(2) by simp
  ultimately show ?thesis by blast
qed

lemma ids_update:
  assumes "k < length ns"
  shows "ids (ns[k := x]) = ids (take k ns) @ ids [x] @ ids (drop (Suc k) ns)"
    and "ids ns = ids (take k ns) @ ids [ns ! k] @ ids (drop (Suc k) ns)"
proof -
  have "ns[k := x] = take k ns @ [x] @ drop (Suc k) ns"
    using assms by (simp add: upd_conv_take_nth_drop)
  then show "ids (ns[k := x]) = ids (take k ns) @ ids [x] @ ids (drop (Suc k) ns)"
    by (metis ids_append)
  have "ns = take k ns @ [ns ! k] @ drop (Suc k) ns"
    using assms by (simp add: id_take_nth_drop)
  then show "ids ns = ids (take k ns) @ ids [ns ! k] @ ids (drop (Suc k) ns)"
    by (metis ids_append)
qed

lemma appendChild_ids:
  "node_at ns r = Some n \<Longrightarrow> mset (ids (appendChild ns r df)) = mset (ids ns) + mset (ids df)"
proof (induction r arbitrary: ns n)
  case Nil
  then show ?case by simp
next
  case (Cons k p)
  then have k: "k < length ns" by (simp split: if_splits)
  obtain t i c tc fc ks where nk: "ns ! k = Node t i c tc fc ks" by (cases "ns ! k")
  let ?ks' = "if p = [] then ks @ df else appendChild ks p df"
  have kids: "mset (ids ?ks') = mset (ids ks) + mset (ids df)"
  proof (cases "p = []")
    case True
    then show ?thesis by (simp add: ids_append)
  next
    case False
    with Cons.prems k nk have "node_at ks p = Some n" by simp
    from Cons.IH [OF this] False show ?thesis by simp
  qed
  have a: "appendChild ns (k # p) df = ns[k := Node t i c tc fc ?ks']"
    using k nk by simp
  have "mset (ids (ns[k := Node t i c tc fc ?ks'])) = mset (ids ns) + mset (ids df)"
    using ids_update(1) [OF k, of "Node t i c tc fc ?ks'"] ids_update(2) [OF k] nk kids
    by (simp add: ids_Cons)
  with a show ?case by simp
qed

lemma node_at_append:
  "node_at ks q = Some n \<Longrightarrow> node_at (ks @ df) q = Some n"
  by (cases q) (auto simp: nth_append split: if_splits)

lemma node_at_appendChild:
  "node_at ns q = Some n \<Longrightarrow>
   \<exists>n'. node_at (appendChild ns r df) q = Some n' \<and> nodeType n' = nodeType n"
proof (induction r arbitrary: ns q n)
  case Nil
  then show ?case by simp
next
  case (Cons k p)
  show ?case
  proof (cases "k < length ns")
    case False
    with Cons.prems show ?thesis by simp
  next
    case k: True
    obtain t i c tc fc ks where nk: "ns ! k = Node t i c tc fc ks" by (cases "ns ! k")
    let ?ks' = "if p = [] then ks @ df else appendChild ks p df"
    have a: "appendChild ns (k # p) df = ns[k := Node t i c tc fc ?ks']"
      using k nk by simp
    from Cons.prems obtain k' q' where q: "q = k' # q'" by (cases q) auto
    with Cons.prems have k': "k' < length ns" by (simp split: if_splits)
    show ?thesis
    proof (cases "k' = k")
      case False
      with Cons.prems q k' have "node_at (ns[k := Node t i c tc fc ?ks']) q = Some n"
        by (cases "q' = []") simp_all
      with a show ?thesis by simp
    next
      case same: True
      show ?thesis
      proof (cases "q' = []")
        case True
        with Cons.prems q same k nk have "nodeType n = t" by auto
        moreover have "node_at (ns[k := Node t i c tc fc ?ks']) q = Some (Node t i c tc fc ?ks')"
          using True q same k by simp
        ultimately show ?thesis using a by simp
      next
        case False
        with Cons.prems q same k nk have sub: "node_at ks q' = Some n" by simp
        have "\<exists>n'. node_at ?ks' q' = Some n' \<and> nodeType n' = nodeType n"
        proof (cases "p = []")
          case True
          then show ?thesis using node_at_append [OF sub, of df] by simp
        next
          case np: False
          from Cons.IH [OF sub] np show ?thesis by simp
        qed
        moreover have "node_at (ns[k := Node t i c tc fc ?ks']) q = node_at ?ks' q'"
          using False q same k by simp
        ultimately show ?thesis using a by simp
      qed
    qed
  qed
qed

lemma is_element_appendChild:
  "is_element doc node \<Longrightarrow> is_element (appendChild doc r df) node"
proof -
  assume e: "is_element doc node"
  then obtain q n where q: "node = Some q" "node_at doc q = Some n" "nodeType n = ELEMENT_NODE"
    by (auto simp: is_element_def split: option.splits)
  from node_at_appendChild [OF q(2), of r df] q show ?thesis
    by (auto simp: is_element_def)
qed

section \<open>Instantiation\<close>

lemma ComponentBlock_new_template:
  "nodeName t = TEMPLATE \<Longrightarrow>
   bTemplate (ComponentBlock_new doc t) \<and>
   variables (ComponentBlock_new doc t) = ids (templateCode (ComponentBlock_new doc t))"
  by (simp add: ComponentBlock_new_def Let_def setTargetElement_def)

lemma adopts_update [simp]: "adopts (b\<lparr>currentElementId := x\<rparr>) doc cI a = adopts b doc cI a"
  by (simp add: adopts_def)

lemma adopts_unused: "adopts b doc cI a \<Longrightarrow> \<not> used b doc a"
  by (auto simp: adopts_def split: if_splits)

lemma prefix_blk_update:
  "bTemplate b \<Longrightarrow> prefix_blk (b\<lparr>currentElementId := a\<rparr>) = instance_suffix (prefixid b) a"
  by (rule prefix_blk_template)

lemma appendTo_returns:
  assumes "bTemplate b" "variables b = ids (templateCode b)" "is_element doc node"
  shows "\<exists>a c js. appendTo node (Str oid) b doc =
           Some (Inr (b\<lparr>currentElementId := a, targetElement_prop := node\<rparr>,
                      appendChild doc (the node) c)) \<and>
           adopts b doc (replace_class forbidden oid) a \<and>
           instantiate (b\<lparr>currentElementId := a\<rparr>) = Inr c \<and>
           mset (ids c) =
             mset (map (\<lambda>m. toString m @ instance_suffix (prefixid b) a) js) +
             mset (map (\<lambda>e. e @ instance_suffix (prefixid b) a) (variables b))"
proof -
  let ?f = "replace_class forbidden oid"
  let ?b0 = "b\<lparr>currentElementId := ?f\<rparr>"
  have t0: "bTemplate ?b0" using assms(1) by simp
  have s0: "replace_class forbidden (currentElementId ?b0) = currentElementId ?b0"
    by (simp add: replace_class_idem)
  from calculateObjectID_adopts [OF t0 s0, of doc] obtain a where
    a: "calculateObjectID ?b0 doc = Some (Inr (b\<lparr>currentElementId := a\<rparr>))"
       "adopts b doc ?f a"
    by auto
  let ?b2 = "b\<lparr>currentElementId := a\<rparr>"
  have "bTemplate ?b2" "variables ?b2 = ids (templateCode ?b2)"
    using assms(1,2) by simp_all
  from instantiate_ids [OF this] obtain c js where
    c: "instantiate ?b2 = Inr c"
       "mset (ids c) = mset (map (\<lambda>m. toString m @ prefix_blk ?b2) js) +
                       mset (map (\<lambda>e. e @ prefix_blk ?b2) (variables ?b2))"
    by blast
  have "appendTo node (Str oid) b doc =
           Some (Inr (?b2\<lparr>targetElement_prop := node\<rparr>, appendChild doc (the node) c))"
    using assms(1,3) a(1) c(1) by (simp add: appendTo_def)
  moreover have "mset (ids c) =
             mset (map (\<lambda>m. toString m @ instance_suffix (prefixid b) a) js) +
             mset (map (\<lambda>e. e @ instance_suffix (prefixid b) a) (variables b))"
    using c(2) assms(1) by (simp add: prefix_blk_update)
  ultimately show ?thesis using a(2) c(1) by auto
qed

lemma instance_ids_suffix:
  assumes "mset (ids c) =
             mset (map (\<lambda>m. toString m @ p) js) + mset (map (\<lambda>e. e @ p) vs)"
    and "i \<in> set (ids c)"
  shows "suffix p i"
proof -
  from assms(2) have "i \<in># mset (ids c)" by simp
  with assms(1) have "i \<in> set (map (\<lambda>m. toString m @ p) js) \<or> i \<in> set (map (\<lambda>e. e @ p) vs)"
    by (metis set_mset_mset union_iff)
  then show ?thesis by (auto simp: suffix_def)
qed

lemma in_use_appendChild:
  assumes "is_element doc node"
  shows "in_use name (appendChild doc (the node) c) s =
         (in_use name doc s \<or> (\<exists>i \<in> set (ids c). suffix (instance_suffix name s) i))"
proof -
  from assms obtain r n where "node = Some r" "node_at doc r = Some n"
    by (auto simp: is_element_def split: option.splits)
  with appendChild_ids [of doc r n c]
  have "mset (ids (appendChild doc (the node) c)) = mset (ids doc) + mset (ids c)"
    by simp
  then have "set (ids (appendChild doc (the node) c)) = set (ids doc) \<union> set (ids c)"
    by (metis set_mset_mset set_mset_union)
  then show ?thesis by (auto simp: in_use_def)
qed

lemma suffix_same_length:
  "suffix a i \<Longrightarrow> suffix b i \<Longrightarrow> length a = length b \<Longrightarrow> a = b"
  by (auto simp: suffix_def)

lemma split_at_underscore:
  assumes "CHR ''_'' \<notin> set x" "CHR ''_'' \<notin> set y" "x @ CHR ''_'' # u = y @ CHR ''_'' # v"
  shows "u = v"
proof -
  have "takeWhile (\<lambda>c. c \<noteq> CHR ''_'') (x @ CHR ''_'' # u) = x"
    using assms(1) by (induction x) auto
  moreover have "takeWhile (\<lambda>c. c \<noteq> CHR ''_'') (y @ CHR ''_'' # v) = y"
    using assms(2) by (induction y) auto
  ultimately have "x = y" using assms(3) by simp
  with assms(3) show ?thesis by simp
qed

lemma toString_Suc0: "toString (Suc 0) = ''1''"
  using toString_1 by simp

text \<open>
  What \<open>appendTo\<close> adopts. On a template built by the constructor and an element of
  the document, \<open>appendTo\<close> with an id string returns, and the object id it adopts is
  the sanitized id itself when that is not empty and \<open>find\<close> does not report it, and
  otherwise the sanitized id followed by the first of \<open>0, 1, 2, \<dots>\<close> that \<open>find\<close>
  does not report. For a block with a variable and a document without ids that end in
  \<open>_name_0\<close> or \<open>_name_1\<close>, an id that sanitizes to the empty string gives the
  object id \<open>0\<close>, and a second such call on the result gives \<open>1\<close>.
\<close>

theorem appendTo_adopts_first_unused:
  assumes "bTemplate b" "variables b = ids (templateCode b)" "is_element doc node"
  shows "\<exists>b' doc'. appendTo node (Str oid) b doc = Some (Inr (b', doc')) \<and>
           adopts b doc (replace_class forbidden oid) (currentElementId b') \<and>
           (variables b \<noteq> [] \<and> replace_class forbidden oid = [] \<and>
            \<not> in_use (prefixid b) doc ''0'' \<and> \<not> in_use (prefixid b) doc ''1'' \<longrightarrow>
              currentElementId b' = ''0'' \<and>
              (\<forall>oid2 node2. replace_class forbidden oid2 = [] \<and> is_element doc node2 \<longrightarrow>
                 (\<exists>b'' doc''. appendTo node2 (Str oid2) b' doc' = Some (Inr (b'', doc'')) \<and>
                     currentElementId b'' = ''1'')))"
proof -
  let ?name = "prefixid b"
  from appendTo_returns [OF assms, of oid] obtain a c js where
    r: "appendTo node (Str oid) b doc =
           Some (Inr (b\<lparr>currentElementId := a, targetElement_prop := node\<rparr>,
                      appendChild doc (the node) c))"
       "adopts b doc (replace_class forbidden oid) a"
       "mset (ids c) =
             mset (map (\<lambda>m. toString m @ instance_suffix ?name a) js) +
             mset (map (\<lambda>e. e @ instance_suffix ?name a) (variables b))"
    by blast
  let ?b' = "b\<lparr>currentElementId := a, targetElement_prop := node\<rparr>"
  let ?doc' = "appendChild doc (the node) c"
  have second: "currentElementId ?b' = ''0'' \<and>
              (\<forall>oid2 node2. replace_class forbidden oid2 = [] \<and> is_element doc node2 \<longrightarrow>
                 (\<exists>b'' doc''. appendTo node2 (Str oid2) ?b' ?doc' = Some (Inr (b'', doc'')) \<and>
                     currentElementId b'' = ''1''))"
    if h: "variables b \<noteq> [] \<and> replace_class forbidden oid = [] \<and>
            \<not> in_use ?name doc ''0'' \<and> \<not> in_use ?name doc ''1''"
  proof -
    from r(2) h obtain m where m: "a = toString m" "\<forall>j < m. used b doc (toString j)"
      by (auto simp: adopts_def)
    have "m = 0"
    proof (rule ccontr)
      assume "m \<noteq> 0"
      with m(2) have "used b doc (toString 0)" by simp
      with h show False by (simp add: used_def toString_0)
    qed
    with m(1) have a0: "a = ''0''" by (simp add: toString_0)
    from h obtain v where v: "v \<in> set (variables b)" by (cases "variables b") auto
    with r(3) have vin: "v @ instance_suffix ?name a \<in> set (ids c)"
      by (metis (no_types, lifting) image_eqI set_map set_mset_mset union_iff)
    have u0: "in_use ?name ?doc' ''0''"
      using vin a0 by (auto simp: in_use_appendChild [OF assms(3)] suffix_def)
    have n1: "\<not> in_use ?name ?doc' ''1''"
    proof
      assume "in_use ?name ?doc' ''1''"
      with h obtain i where i: "i \<in> set (ids c)" "suffix (instance_suffix ?name ''1'') i"
        by (auto simp: in_use_appendChild [OF assms(3)])
      from instance_ids_suffix [OF r(3) i(1)] a0
      have "suffix (instance_suffix ?name ''0'') i" by simp
      from suffix_same_length [OF this i(2)] show False
        by (simp add: instance_suffix_def)
    qed
    have "\<exists>b'' doc''. appendTo node2 (Str oid2) ?b' ?doc' = Some (Inr (b'', doc'')) \<and>
                     currentElementId b'' = ''1''"
      if h2: "replace_class forbidden oid2 = [] \<and> is_element doc node2" for oid2 node2
    proof -
      have t': "bTemplate ?b'" "variables ?b' = ids (templateCode ?b')"
        using assms(1,2) by simp_all
      have e': "is_element ?doc' node2"
        using h2 by (simp add: is_element_appendChild)
      from appendTo_returns [OF t' e', of oid2] obtain a2 c2 where
        r2: "appendTo node2 (Str oid2) ?b' ?doc' =
           Some (Inr (?b'\<lparr>currentElementId := a2, targetElement_prop := node2\<rparr>,
                      appendChild ?doc' (the node2) c2))"
          "adopts ?b' ?doc' (replace_class forbidden oid2) a2"
        by blast
      from r2(2) h2 obtain k where k: "a2 = toString k" "\<not> used ?b' ?doc' (toString k)"
          "\<forall>j < k. used ?b' ?doc' (toString j)"
        by (auto simp: adopts_def)
      have uz: "used ?b' ?doc' (toString 0)"
        using u0 h by (simp add: used_def toString_0)
      have nu: "\<not> used ?b' ?doc' (toString 1)"
        using n1 by (simp add: used_def toString_Suc0)
      have "k \<noteq> 0" using k(2) uz by metis
      moreover have "\<not> 1 < k" using k(3) nu by blast
      ultimately have "k = 1" by simp
      with k(1) have "a2 = ''1''" by (simp add: toString_Suc0)
      with r2(1) show ?thesis by simp
    qed
    with a0 show ?thesis by simp
  qed
  have "appendTo node (Str oid) b doc = Some (Inr (?b', ?doc')) \<and>
           adopts b doc (replace_class forbidden oid) (currentElementId ?b')"
    using r(1,2) by simp
  with second show ?thesis by blast
qed

theorem appendTo_adopts_first_unused_witness:
  "bTemplate row \<and> variables row = ids (templateCode row) \<and> is_element page (Some [0]) \<and>
   replace_class forbidden ''#'' = [] \<and>
   (\<exists>b' doc'. appendTo (Some [0]) (Str ''#'') row page = Some (Inr (b', doc')) \<and>
      currentElementId b' = ''0'' \<and>
      (\<exists>b'' doc''. appendTo (Some [0]) (Str ''#'') b' doc' = Some (Inr (b'', doc'')) \<and>
         currentElementId b'' = ''1''))"
proof -
  have h1: "bTemplate row" by code_simp
  have h2: "variables row = ids (templateCode row)" by code_simp
  have h3: "is_element page (Some [0])" by code_simp
  have h4: "variables row \<noteq> []" by code_simp
  have h5: "replace_class forbidden ''#'' = []" by code_simp
  have h6: "\<not> in_use (prefixid row) page ''0''" by code_simp
  have h7: "\<not> in_use (prefixid row) page ''1''" by code_simp
  from appendTo_adopts_first_unused [OF h1 h2 h3, of "''#''"] obtain b' doc' where
    r: "appendTo (Some [0]) (Str ''#'') row page = Some (Inr (b', doc'))"
       "variables row \<noteq> [] \<and> replace_class forbidden ''#'' = [] \<and>
        \<not> in_use (prefixid row) page ''0'' \<and> \<not> in_use (prefixid row) page ''1'' \<longrightarrow>
          currentElementId b' = ''0'' \<and>
          (\<forall>oid2 node2. replace_class forbidden oid2 = [] \<and> is_element page node2 \<longrightarrow>
             (\<exists>b'' doc''. appendTo node2 (Str oid2) b' doc' = Some (Inr (b'', doc'')) \<and>
                 currentElementId b'' = ''1''))"
    by blast
  from r(2) h4 h5 h6 h7 have z: "currentElementId b' = ''0''"
    and n: "\<forall>oid2 node2. replace_class forbidden oid2 = [] \<and> is_element page node2 \<longrightarrow>
             (\<exists>b'' doc''. appendTo node2 (Str oid2) b' doc' = Some (Inr (b'', doc'')) \<and>
                 currentElementId b'' = ''1'')"
    by blast+
  from n h5 h3 have "\<exists>b'' doc''. appendTo (Some [0]) (Str ''#'') b' doc' = Some (Inr (b'', doc'')) \<and>
                 currentElementId b'' = ''1''"
    by blast
  with r(1) z h1 h2 h3 h5 show ?thesis by blast
qed

text \<open>
  Claim C3, evaluated. The template \<open>item\<close> has no variables, so \<open>find\<close> reports
  nothing: \<open>attach('')\<close> adopts the object id \<open>0\<close>, and a second \<open>attach('')\<close>
  adopts \<open>0\<close> again, not \<open>1\<close>. With no object id at all, \<open>attach()\<close> on \<open>row\<close>
  raises \<open>TypeError\<close>: \<open>flattenObjectId\<close> calls \<open>replace\<close> on \<open>undefined\<close>.
\<close>

theorem attach_without_id_twice:
  "bTemplate item \<and> variables item = [] \<and>
   attach (Str []) item page = Some (Inr (item_0, page_item)) \<and>
   currentElementId item_0 = ''0'' \<and>
   attach (Str []) item_0 page_item = Some (Inr (item_0, page_item2)) \<and>
   attach Undefined row page = Some (Inl TypeError)"
  by code_simp

text \<open>
  Where instances are disjoint. For a template built by the constructor and elements of
  the document, and two id strings that differ after sanitization: when the template has
  a variable, or both sanitized ids are non-empty, both calls of \<open>appendTo\<close> return,
  each inserts its clone, and no id of the first clone is an id of the second.
\<close>

theorem instances_disjoint:
  assumes "bTemplate b" "variables b = ids (templateCode b)"
    and "is_element doc n1" "is_element doc n2"
    and "replace_class forbidden o1 \<noteq> replace_class forbidden o2"
    and "variables b \<noteq> [] \<or>
         (replace_class forbidden o1 \<noteq> [] \<and> replace_class forbidden o2 \<noteq> [])"
  shows "\<exists>b1 c1 b2 c2.
           appendTo n1 (Str o1) b doc = Some (Inr (b1, appendChild doc (the n1) c1)) \<and>
           instantiate b1 = Inr c1 \<and>
           appendTo n2 (Str o2) b1 (appendChild doc (the n1) c1) =
             Some (Inr (b2, appendChild (appendChild doc (the n1) c1) (the n2) c2)) \<and>
           instantiate b2 = Inr c2 \<and>
           set (ids c1) \<inter> set (ids c2) = {}"
proof -
  let ?name = "prefixid b"
  let ?f1 = "replace_class forbidden o1" and ?f2 = "replace_class forbidden o2"
  from appendTo_returns [OF assms(1,2,3), of o1] obtain a1 c1 js1 where
    r1: "appendTo n1 (Str o1) b doc =
           Some (Inr (b\<lparr>currentElementId := a1, targetElement_prop := n1\<rparr>,
                      appendChild doc (the n1) c1))"
        "adopts b doc ?f1 a1"
        "instantiate (b\<lparr>currentElementId := a1\<rparr>) = Inr c1"
        "mset (ids c1) =
             mset (map (\<lambda>m. toString m @ instance_suffix ?name a1) js1) +
             mset (map (\<lambda>e. e @ instance_suffix ?name a1) (variables b))"
    by blast
  let ?b1 = "b\<lparr>currentElementId := a1, targetElement_prop := n1\<rparr>"
  let ?doc1 = "appendChild doc (the n1) c1"
  have t1: "bTemplate ?b1" "variables ?b1 = ids (templateCode ?b1)"
    using assms(1,2) by simp_all
  have e1: "is_element ?doc1 n2"
    using assms(4) by (rule is_element_appendChild)
  from appendTo_returns [OF t1 e1, of o2] obtain a2 c2 js2 where
    r2: "appendTo n2 (Str o2) ?b1 ?doc1 =
           Some (Inr (?b1\<lparr>currentElementId := a2, targetElement_prop := n2\<rparr>,
                      appendChild ?doc1 (the n2) c2))"
        "adopts ?b1 ?doc1 ?f2 a2"
        "instantiate (?b1\<lparr>currentElementId := a2\<rparr>) = Inr c2"
        "mset (ids c2) =
             mset (map (\<lambda>m. toString m @ instance_suffix ?name a2) js2) +
             mset (map (\<lambda>e. e @ instance_suffix ?name a2) (variables b))"
    by auto
  let ?b2 = "?b1\<lparr>currentElementId := a2, targetElement_prop := n2\<rparr>"
  have i1: "instantiate ?b1 = Inr c1"
    using r1(3) assms(1) by (simp add: instantiate_def initVariables_def initRootElements_def prefix_blk_def)
  have i2: "instantiate ?b2 = Inr c2"
    using r2(3) assms(1) by (simp add: instantiate_def initVariables_def initRootElements_def prefix_blk_def)
  have disj: "set (ids c1) \<inter> set (ids c2) = {}"
  proof (cases "variables b = []")
    case False
    from adopts_unused [OF r2(2)] False have nu: "\<not> in_use ?name ?doc1 a2"
      by (simp add: used_def)
    show ?thesis
    proof (rule ccontr)
      assume "set (ids c1) \<inter> set (ids c2) \<noteq> {}"
      then obtain i where i: "i \<in> set (ids c1)" "i \<in> set (ids c2)" by blast
      from instance_ids_suffix [OF r2(4) i(2)] i(1)
      have "in_use ?name ?doc1 a2"
        by (auto simp: in_use_appendChild [OF assms(3)])
      with nu show False ..
    qed
  next
    case True
    with assms(6) have ne: "?f1 \<noteq> []" "?f2 \<noteq> []" by simp_all
    from r1(2) True ne have a1: "a1 = ?f1" by (simp add: adopts_def used_def)
    from r2(2) True ne have a2: "a2 = ?f2" by (simp add: adopts_def used_def)
    show ?thesis
    proof (rule ccontr)
      assume "set (ids c1) \<inter> set (ids c2) \<noteq> {}"
      then obtain i where i: "i \<in> set (ids c1)" "i \<in> set (ids c2)" by blast
      from i(1) r1(4) True obtain m1 where m1: "i = toString m1 @ instance_suffix ?name a1"
        by (metis (no_types, lifting) add.right_neutral imageE list.simps(8) mset_zero_iff_right
            set_map set_mset_mset)
      from i(2) r2(4) True obtain m2 where m2: "i = toString m2 @ instance_suffix ?name a2"
        by (metis (no_types, lifting) add.right_neutral imageE list.simps(8) mset_zero_iff_right
            set_map set_mset_mset)
      from m1 m2 have "toString m1 @ CHR ''_'' # (?name @ CHR ''_'' # a1) =
                       toString m2 @ CHR ''_'' # (?name @ CHR ''_'' # a2)"
        by (simp add: instance_suffix_def)
      from split_at_underscore [OF toString_no_underscore toString_no_underscore this]
      have "a1 = a2" by simp
      with a1 a2 assms(5) show False by simp
    qed
  qed
  from r1(1) i1 r2(1) i2 disj show ?thesis by blast
qed

theorem instances_disjoint_witness:
  "bTemplate row \<and> variables row = ids (templateCode row) \<and> is_element page (Some [0]) \<and>
   replace_class forbidden ''r1'' \<noteq> replace_class forbidden ''r2'' \<and> variables row \<noteq> [] \<and>
   (\<exists>b1 c1 b2 c2.
      appendTo (Some [0]) (Str ''r1'') row page =
        Some (Inr (b1, appendChild page (the (Some [0])) c1)) \<and>
      instantiate b1 = Inr c1 \<and>
      appendTo (Some [0]) (Str ''r2'') b1 (appendChild page (the (Some [0])) c1) =
        Some (Inr (b2, appendChild (appendChild page (the (Some [0])) c1) (the (Some [0])) c2)) \<and>
      instantiate b2 = Inr c2 \<and>
      set (ids c1) \<inter> set (ids c2) = {})"
proof -
  have h1: "bTemplate row" by code_simp
  have h2: "variables row = ids (templateCode row)" by code_simp
  have h3: "is_element page (Some [0])" by code_simp
  have h4: "replace_class forbidden ''r1'' \<noteq> replace_class forbidden ''r2''" by code_simp
  have h5: "variables row \<noteq> []" by code_simp
  from h5 have h6: "variables row \<noteq> [] \<or>
      (replace_class forbidden ''r1'' \<noteq> [] \<and> replace_class forbidden ''r2'' \<noteq> [])" ..
  from h1 h2 h3 h4 h5 instances_disjoint [OF h1 h2 h3 h3 h4 h6] show ?thesis
    by (intro conjI)
qed

text \<open>
  Claim C1, evaluated. The template \<open>item\<close> has no variables. The object ids \<open>''\<close>
  and \<open>'0'\<close> differ after sanitization, both calls adopt \<open>0\<close>, and both instances
  are the clone with the one id \<open>0_item_0\<close>.
\<close>

theorem instances_collide:
  "variables item = [] \<and>
   replace_class forbidden [] \<noteq> replace_class forbidden ''0'' \<and>
   appendTo (Some [0]) (Str []) item page = Some (Inr (item_0, appendChild page [0] item_clone)) \<and>
   instantiate item_0 = Inr item_clone \<and>
   appendTo (Some [0]) (Str ''0'') item_0 (appendChild page [0] item_clone) =
     Some (Inr (item_0, appendChild (appendChild page [0] item_clone) [0] item_clone)) \<and>
   ids item_clone = [''0_item_0'']"
  by code_simp

end
